theory Spec2Isabelle
  imports
    Main
    "HOL-Library.Word"
    "HOL-Library.Mapping"
    "HOL-Library.AList_Mapping"
    "HOL-Library.Char_ord"
    "HOL-Library.List_Lexorder"
begin

section \<open>Permission comparison of go/vt/mysqlctl/tmutils/permissions.go\<close>

text \<open>
  Go strings are byte sequences and \<open>string\<close> is a list of 8-bit characters; Go's
  \<open><\<close> on strings is the bytewise lexicographic order, which is the order that
  \<open>Char_ord\<close> and \<open>List_Lexorder\<close> put on \<open>string\<close>. A \<open>uint64\<close> is a
  \<open>64 word\<close>. A \<open>map[string]string\<close> is a \<open>(string, string) mapping\<close>: it has
  no order of its own, and reading a missing key gives the empty string. The slices
  hold the records themselves: a nil pointer in a slice is outside the model. The
  indices of the loops start at 0 and stay below the lengths, so they are \<open>nat\<close>.
\<close>

subsection \<open>Data\<close>

record UserPermission =
  up_Host :: string
  up_User :: string
  up_PasswordChecksum :: "64 word"
  up_Privileges :: "(string, string) mapping"

record DbPermission =
  dp_Host :: string
  dp_Db :: string
  dp_User :: string
  dp_Privileges :: "(string, string) mapping"

record Permissions =
  UserPermissions :: "UserPermission list"
  DbPermissions :: "DbPermission list"

subsection \<open>Formatting\<close>

text \<open>The decimal digits that \<open>%v\<close> prints for an unsigned integer.\<close>

fun decimal :: "nat \<Rightarrow> string" where
  "decimal n =
     (if n < 10 then [char_of (48 + n)]
      else decimal (n div 10) @ [char_of (48 + n mod 10)])"

declare decimal.simps [simp del]

text \<open>
  \<open>printPrivileges\<close>: the keys are collected in the order the \<open>range\<close> loop visits
  them (\<open>si\<close>, any enumeration of the keys), sorted with \<open>sort.Strings\<close>, and one
  entry is appended to \<open>result\<close> for each.
\<close>

definition printPrivileges_range :: "string list \<Rightarrow> (string, string) mapping \<Rightarrow> string" where
  "printPrivileges_range si priv =
     foldl (\<lambda>result k. result @ '' '' @ k @ ''('' @ Mapping.lookup_default [] priv k @ '')'')
       [] (sort si)"

text \<open>
  The function itself, with the keys visited in one fixed order; lemma
  \<open>printPrivileges_range_any_order\<close> below shows that the order visited does not matter.
\<close>

definition printPrivileges :: "(string, string) mapping \<Rightarrow> string" where
  "printPrivileges priv = printPrivileges_range (Mapping.ordered_keys priv) priv"

definition UserPermissionPrimaryKey :: "UserPermission \<Rightarrow> string" where
  "UserPermissionPrimaryKey up = up_Host up @ '':'' @ up_User up"

definition UserPermissionString :: "UserPermission \<Rightarrow> string" where
  "UserPermissionString up =
     (let passwd =
        (if up_PasswordChecksum up = 0 then ''NoPassword''
         else ''PasswordChecksum('' @ decimal (unat (up_PasswordChecksum up)) @ '')'')
      in ''UserPermission '' @ passwd @ printPrivileges (up_Privileges up))"

definition DbPermissionPrimaryKey :: "DbPermission \<Rightarrow> string" where
  "DbPermissionPrimaryKey dp = dp_Host dp @ '':'' @ dp_Db dp @ '':'' @ dp_User dp"

definition DbPermissionString :: "DbPermission \<Rightarrow> string" where
  "DbPermissionString dp = ''DbPermission'' @ printPrivileges (dp_Privileges dp)"

subsection \<open>The permissionList interface and its two implementations\<close>

datatype permissionList =
  userPermissionList "UserPermission list"
| dbPermissionList "DbPermission list"

text \<open>Indexing a slice out of range panics: \<open>None\<close>.\<close>

fun Get :: "permissionList \<Rightarrow> nat \<Rightarrow> (string \<times> string) option" where
  "Get (userPermissionList upl) i =
     (if i < length upl
      then Some (UserPermissionPrimaryKey (upl ! i), UserPermissionString (upl ! i))
      else None)"
| "Get (dbPermissionList upl) i =
     (if i < length upl
      then Some (DbPermissionPrimaryKey (upl ! i), DbPermissionString (upl ! i))
      else None)"

fun Len :: "permissionList \<Rightarrow> nat" where
  "Len (userPermissionList upl) = length upl"
| "Len (dbPermissionList upl) = length upl"

subsection \<open>The error recorder\<close>

text \<open>
  The recorder \<open>concurrency.AllErrorRecorder\<close> belongs to another package,
  go/vt/concurrency. Its state is the list of the errors recorded
  so far, oldest first; an error made by \<open>fmt.Errorf\<close> is its message.
\<close>

type_synonym AllErrorRecorder = "string list"

text \<open>
  Modelled from the spec: \<open>AllErrorRecorder.RecordError\<close>, the append of "an
  append-only sink that accumulates zero or more error objects".
\<close>

definition RecordError :: "AllErrorRecorder \<Rightarrow> string \<Rightarrow> AllErrorRecorder" where
  "RecordError er err = er @ [err]"

text \<open>
  Modelled from the spec: \<open>AllErrorRecorder.HasErrors\<close>, the query "has any error".
\<close>

definition HasErrors :: "AllErrorRecorder \<Rightarrow> bool" where
  "HasErrors er = (er \<noteq> [])"

text \<open>
  Modelled from the spec: \<open>AllErrorRecorder.ErrorStrings\<close>, the "ordered sequence"
  of the messages recorded.
\<close>

definition ErrorStrings :: "AllErrorRecorder \<Rightarrow> string list" where
  "ErrorStrings er = er"

subsection \<open>The differ\<close>

text \<open>The two format strings of \<open>diffPermissions\<close>, every verb printing a string.\<close>

definition extraError :: "string \<Rightarrow> string \<Rightarrow> string \<Rightarrow> string" where
  "extraError sideName name pk = sideName @ '' has an extra '' @ name @ '' '' @ pk"

definition differError ::
  "string \<Rightarrow> string \<Rightarrow> string \<Rightarrow> string \<Rightarrow> string \<Rightarrow> string \<Rightarrow> string" where
  "differError name lpk leftName lval rightName rval =
     ''permissions differ on '' @ name @ '' '' @ lpk @ '':'' @ [CHR 0x0A]
       @ leftName @ '': '' @ lval @ [CHR 0x0A]
       @ '' differs from:'' @ [CHR 0x0A]
       @ rightName @ '': '' @ rval"

text \<open>The third loop: what is left on the right side.\<close>

function diffPermissions_right ::
  "string \<Rightarrow> string \<Rightarrow> permissionList \<Rightarrow> nat \<Rightarrow> AllErrorRecorder \<Rightarrow> AllErrorRecorder option"
where
  "diffPermissions_right name rightName right rightIndex er =
     (if rightIndex < Len right then
        (case Get right rightIndex of
           None \<Rightarrow> None
         | Some (rpk, _) \<Rightarrow>
             diffPermissions_right name rightName right (rightIndex + 1)
               (RecordError er (extraError rightName name rpk)))
      else Some er)"
  by pat_completeness auto
termination
  by (relation "measure (\<lambda>(name, rightName, right, rightIndex, er). Len right - rightIndex)") auto

declare diffPermissions_right.simps [simp del]

text \<open>The second loop: what is left on the left side.\<close>

function diffPermissions_left ::
  "string \<Rightarrow> string \<Rightarrow> permissionList \<Rightarrow> nat \<Rightarrow> AllErrorRecorder \<Rightarrow> AllErrorRecorder option"
where
  "diffPermissions_left name leftName left leftIndex er =
     (if leftIndex < Len left then
        (case Get left leftIndex of
           None \<Rightarrow> None
         | Some (lpk, _) \<Rightarrow>
             diffPermissions_left name leftName left (leftIndex + 1)
               (RecordError er (extraError leftName name lpk)))
      else Some er)"
  by pat_completeness auto
termination
  by (relation "measure (\<lambda>(name, leftName, left, leftIndex, er). Len left - leftIndex)") auto

declare diffPermissions_left.simps [simp del]

text \<open>The first loop, which falls through to the other two.\<close>

function diffPermissions_loop ::
  "string \<Rightarrow> string \<Rightarrow> permissionList \<Rightarrow> string \<Rightarrow> permissionList \<Rightarrow> nat \<Rightarrow> nat
     \<Rightarrow> AllErrorRecorder \<Rightarrow> AllErrorRecorder option"
where
  "diffPermissions_loop name leftName left rightName right leftIndex rightIndex er =
     (if leftIndex < Len left \<and> rightIndex < Len right then
        (case Get left leftIndex of
           None \<Rightarrow> None
         | Some (lpk, lval) \<Rightarrow>
             (case Get right rightIndex of
                None \<Rightarrow> None
              | Some (rpk, rval) \<Rightarrow>
                  if lpk < rpk then
                    diffPermissions_loop name leftName left rightName right
                      (leftIndex + 1) rightIndex
                      (RecordError er (extraError leftName name lpk))
                  else if lpk > rpk then
                    diffPermissions_loop name leftName left rightName right
                      leftIndex (rightIndex + 1)
                      (RecordError er (extraError rightName name rpk))
                  else
                    diffPermissions_loop name leftName left rightName right
                      (leftIndex + 1) (rightIndex + 1)
                      (if lval \<noteq> rval
                       then RecordError er
                              (differError name lpk leftName lval rightName rval)
                       else er)))
      else
        (case diffPermissions_left name leftName left leftIndex er of
           None \<Rightarrow> None
         | Some er' \<Rightarrow> diffPermissions_right name rightName right rightIndex er'))"
  by pat_completeness auto
termination
  by (relation "measure (\<lambda>(name, leftName, left, rightName, right, leftIndex, rightIndex, er).
        (Len left - leftIndex) + (Len right - rightIndex))") auto

declare diffPermissions_loop.simps [simp del]

definition diffPermissions ::
  "string \<Rightarrow> string \<Rightarrow> permissionList \<Rightarrow> string \<Rightarrow> permissionList
     \<Rightarrow> AllErrorRecorder \<Rightarrow> AllErrorRecorder option" where
  "diffPermissions name leftName left rightName right er =
     diffPermissions_loop name leftName left rightName right 0 0 er"

definition DiffPermissions ::
  "string \<Rightarrow> Permissions \<Rightarrow> string \<Rightarrow> Permissions \<Rightarrow> AllErrorRecorder
     \<Rightarrow> AllErrorRecorder option" where
  "DiffPermissions leftName left rightName right er =
     (case diffPermissions ''user'' leftName (userPermissionList (UserPermissions left))
             rightName (userPermissionList (UserPermissions right)) er of
        None \<Rightarrow> None
      | Some er' \<Rightarrow>
          diffPermissions ''db'' leftName (dbPermissionList (DbPermissions left))
            rightName (dbPermissionList (DbPermissions right)) er')"

text \<open>The result \<open>nil\<close> is the empty list.\<close>

definition DiffPermissionsToArray ::
  "string \<Rightarrow> Permissions \<Rightarrow> string \<Rightarrow> Permissions \<Rightarrow> string list option" where
  "DiffPermissionsToArray leftName left rightName right =
     (case DiffPermissions leftName left rightName right [] of
        None \<Rightarrow> None
      | Some er \<Rightarrow> Some (if HasErrors er then ErrorStrings er else []))"

subsection \<open>The differ as a merge of two lists\<close>

text \<open>
  The spec's view of the differ (section 4.3): the two inputs are the sequences of
  projected records \<open>(key, renderedValue)\<close>, and the output is a sequence of
  discrepancy reports, each an extra record on one side or a value mismatch. The
  lemma \<open>diffPermissions_loop_mergeDiff\<close> connects it to the loops above.
\<close>

fun records :: "permissionList \<Rightarrow> (string \<times> string) list" where
  "records (userPermissionList upl) =
     map (\<lambda>up. (UserPermissionPrimaryKey up, UserPermissionString up)) upl"
| "records (dbPermissionList upl) =
     map (\<lambda>dp. (DbPermissionPrimaryKey dp, DbPermissionString dp)) upl"

datatype side = LeftSide | RightSide

datatype discrepancy =
  ExtraRecord side string
| ValueMismatch string string string

fun mergeDiff :: "(string \<times> string) list \<Rightarrow> (string \<times> string) list \<Rightarrow> discrepancy list" where
  "mergeDiff [] [] = []"
| "mergeDiff (l # ls) [] = ExtraRecord LeftSide (fst l) # mergeDiff ls []"
| "mergeDiff [] (r # rs) = ExtraRecord RightSide (fst r) # mergeDiff [] rs"
| "mergeDiff (l # ls) (r # rs) =
     (if fst l < fst r then ExtraRecord LeftSide (fst l) # mergeDiff ls (r # rs)
      else if fst l > fst r then ExtraRecord RightSide (fst r) # mergeDiff (l # ls) rs
      else if snd l \<noteq> snd r then ValueMismatch (fst l) (snd l) (snd r) # mergeDiff ls rs
      else mergeDiff ls rs)"

fun discrepancyKey :: "discrepancy \<Rightarrow> string" where
  "discrepancyKey (ExtraRecord s k) = k"
| "discrepancyKey (ValueMismatch k lv rv) = k"

fun message :: "string \<Rightarrow> string \<Rightarrow> string \<Rightarrow> discrepancy \<Rightarrow> string" where
  "message name leftName rightName (ExtraRecord LeftSide k) = extraError leftName name k"
| "message name leftName rightName (ExtraRecord RightSide k) = extraError rightName name k"
| "message name leftName rightName (ValueMismatch k lv rv) =
     differError name k leftName lv rightName rv"

subsection \<open>Example records\<close>

abbreviation privs1 :: "string \<Rightarrow> string \<Rightarrow> (string, string) mapping" where
  "privs1 k v \<equiv> Mapping.update k v Mapping.empty"

abbreviation user_h_a :: "string \<Rightarrow> UserPermission" where
  "user_h_a v \<equiv>
     \<lparr>up_Host = ''h'', up_User = ''a'', up_PasswordChecksum = 0,
      up_Privileges = privs1 ''Select_priv'' v\<rparr>"

abbreviation db_h_d_u :: DbPermission where
  "db_h_d_u \<equiv> \<lparr>dp_Host = ''h'', dp_Db = ''d'', dp_User = ''u'', dp_Privileges = Mapping.empty\<rparr>"

abbreviation user_of :: "string \<Rightarrow> string \<Rightarrow> 64 word \<Rightarrow> string \<Rightarrow> UserPermission" where
  "user_of h u c v \<equiv>
     \<lparr>up_Host = h, up_User = u, up_PasswordChecksum = c,
      up_Privileges = privs1 ''Select_priv'' v\<rparr>"

section \<open>The loops compute the merge\<close>

text \<open>
  Every \<open>Get\<close> of the three loops is guarded by its loop condition, so no run panics,
  and the recorder receives, after what it already held, the messages of the merge of the
  two projected sequences, in order.
\<close>

lemma Len_records: "Len pl = length (records pl)"
  by (cases pl) simp_all

lemma Get_records: "Get pl i = (if i < Len pl then Some (records pl ! i) else None)"
  by (cases pl) simp_all

lemma diffPermissions_right_records:
  "diffPermissions_right name rightName right j er =
     Some (er @ map (\<lambda>r. extraError rightName name (fst r)) (drop j (records right)))"
proof (induction name rightName right j er rule: diffPermissions_right.induct)
  case (1 name rightName right j er)
  show ?case
  proof (cases "j < Len right")
    case True
    then have d: "drop j (records right) = records right ! j # drop (Suc j) (records right)"
      by (simp add: Len_records Cons_nth_drop_Suc)
    obtain k v where kv: "records right ! j = (k, v)" by (cases "records right ! j")
    have g: "Get right j = Some (k, v)" using True kv by (simp add: Get_records)
    show ?thesis
      using "1.IH"[OF True g refl] True g d kv
      by (subst diffPermissions_right.simps) (simp add: RecordError_def)
  next
    case False
    then show ?thesis
      by (subst diffPermissions_right.simps) (simp add: Len_records)
  qed
qed

lemma diffPermissions_left_records:
  "diffPermissions_left name leftName left i er =
     Some (er @ map (\<lambda>l. extraError leftName name (fst l)) (drop i (records left)))"
proof (induction name leftName left i er rule: diffPermissions_left.induct)
  case (1 name leftName left i er)
  show ?case
  proof (cases "i < Len left")
    case True
    then have d: "drop i (records left) = records left ! i # drop (Suc i) (records left)"
      by (simp add: Len_records Cons_nth_drop_Suc)
    obtain k v where kv: "records left ! i = (k, v)" by (cases "records left ! i")
    have g: "Get left i = Some (k, v)" using True kv by (simp add: Get_records)
    show ?thesis
      using "1.IH"[OF True g refl] True g d kv
      by (subst diffPermissions_left.simps) (simp add: RecordError_def)
  next
    case False
    then show ?thesis
      by (subst diffPermissions_left.simps) (simp add: Len_records)
  qed
qed

lemma mergeDiff_Nil_left: "mergeDiff [] rs = map (\<lambda>r. ExtraRecord RightSide (fst r)) rs"
  by (induction rs) simp_all

lemma mergeDiff_Nil_right: "mergeDiff ls [] = map (\<lambda>l. ExtraRecord LeftSide (fst l)) ls"
  by (induction ls) simp_all

lemma diffPermissions_loop_mergeDiff:
  "diffPermissions_loop name leftName left rightName right i j er =
     Some (er @ map (message name leftName rightName)
                  (mergeDiff (drop i (records left)) (drop j (records right))))"
proof (induction name leftName left rightName right i j er rule: diffPermissions_loop.induct)
  case (1 name leftName left rightName right i j er)
  show ?case
  proof (cases "i < Len left \<and> j < Len right")
    case True
    then have di: "drop i (records left) = records left ! i # drop (Suc i) (records left)"
      and dj: "drop j (records right) = records right ! j # drop (Suc j) (records right)"
      by (simp_all add: Len_records Cons_nth_drop_Suc)
    obtain lpk lval where l: "records left ! i = (lpk, lval)" by (cases "records left ! i")
    obtain rpk rval where r: "records right ! j = (rpk, rval)" by (cases "records right ! j")
    have gl: "Get left i = Some (lpk, lval)" using True l by (simp add: Get_records)
    have gr: "Get right j = Some (rpk, rval)" using True r by (simp add: Get_records)
    note IH = "1.IH"[OF True gl refl gr refl]
    consider (lt) "lpk < rpk" | (gt) "\<not> lpk < rpk" "rpk < lpk" | (eq) "\<not> lpk < rpk" "\<not> rpk < lpk"
      by blast
    then show ?thesis
    proof cases
      case lt
      show ?thesis
        using IH(1)[OF lt] True gl gr lt l r
        by (subst diffPermissions_loop.simps) (simp add: di dj RecordError_def)
    next
      case gt
      show ?thesis
        using IH(2)[OF gt] True gl gr gt l r
        by (subst diffPermissions_loop.simps) (simp add: di dj RecordError_def)
    next
      case eq
      show ?thesis
        using IH(3)[OF eq] True gl gr eq l r
        by (subst diffPermissions_loop.simps) (cases "lval = rval"; simp add: di dj RecordError_def)
    qed
  next
    case False
    then have e: "drop i (records left) = [] \<or> drop j (records right) = []"
      by (auto simp: Len_records)
    have "mergeDiff (drop i (records left)) (drop j (records right)) =
            map (\<lambda>l. ExtraRecord LeftSide (fst l)) (drop i (records left))
          @ map (\<lambda>r. ExtraRecord RightSide (fst r)) (drop j (records right))"
      using e by (auto simp: mergeDiff_Nil_left mergeDiff_Nil_right)
    then show ?thesis
      by (subst diffPermissions_loop.simps, simp only: False if_False)
         (simp add: diffPermissions_left_records diffPermissions_right_records o_def)
  qed
qed

lemma diffPermissions_mergeDiff:
  "diffPermissions name leftName left rightName right er =
     Some (er @ map (message name leftName rightName) (mergeDiff (records left) (records right)))"
  by (simp add: diffPermissions_def diffPermissions_loop_mergeDiff)

lemma DiffPermissions_mergeDiff:
  "DiffPermissions leftName left rightName right er =
     Some (er
       @ map (message ''user'' leftName rightName)
           (mergeDiff (records (userPermissionList (UserPermissions left)))
                      (records (userPermissionList (UserPermissions right))))
       @ map (message ''db'' leftName rightName)
           (mergeDiff (records (dbPermissionList (DbPermissions left)))
                      (records (dbPermissionList (DbPermissions right)))))"
  by (simp add: DiffPermissions_def diffPermissions_mergeDiff)

lemma DiffPermissionsToArray_mergeDiff:
  "DiffPermissionsToArray leftName left rightName right =
     Some (map (message ''user'' leftName rightName)
           (mergeDiff (records (userPermissionList (UserPermissions left)))
                      (records (userPermissionList (UserPermissions right))))
       @ map (message ''db'' leftName rightName)
           (mergeDiff (records (dbPermissionList (DbPermissions left)))
                      (records (dbPermissionList (DbPermissions right)))))"
  by (simp add: DiffPermissionsToArray_def DiffPermissions_mergeDiff HasErrors_def ErrorStrings_def)

lemma mergeDiff_same: "mergeDiff xs xs = []"
  by (induction xs) simp_all

lemma length_mergeDiff: "length (mergeDiff ls rs) \<le> length ls + length rs"
  by (induction ls rs rule: mergeDiff.induct) (auto simp: not_less)

section \<open>Properties of the formatting\<close>

lemma foldl_append_concat: "foldl (\<lambda>result k. result @ f k) acc ks = acc @ concat (map f ks)"
  by (induction ks arbitrary: acc) simp_all

lemma sort_enumeration:
  "distinct si \<Longrightarrow> sort si = sorted_list_of_set (set si)"
  by (simp add: sorted_list_of_set_sort_remdups distinct_remdups_id)

lemma printPrivileges_range_concat:
  assumes "distinct si" and "set si = Mapping.keys priv"
  shows "printPrivileges_range si priv =
           concat (map (\<lambda>k. '' '' @ k @ ''('' @ Mapping.lookup_default [] priv k @ '')'')
                     (sorted_list_of_set (Mapping.keys priv)))"
  using assms by (simp add: printPrivileges_range_def foldl_append_concat sort_enumeration)

lemma printPrivileges_range_any_order:
  assumes "distinct si" and "set si = Mapping.keys priv"
  shows "printPrivileges_range si priv = printPrivileges priv"
proof -
  have f: "finite (Mapping.keys priv)" using assms(2) by (metis List.finite_set)
  have "distinct (Mapping.ordered_keys priv)" and "set (Mapping.ordered_keys priv) = Mapping.keys priv"
    using f by (simp_all add: ordered_keys_def)
  then have "printPrivileges priv =
           concat (map (\<lambda>k. '' '' @ k @ ''('' @ Mapping.lookup_default [] priv k @ '')'')
                     (sorted_list_of_set (Mapping.keys priv)))"
    unfolding printPrivileges_def by (rule printPrivileges_range_concat)
  then show ?thesis using printPrivileges_range_concat[OF assms] by simp
qed

lemma printPrivileges_empty: "printPrivileges Mapping.empty = []"
  by (simp add: printPrivileges_def printPrivileges_range_def ordered_keys_def)

lemma decimal_read_back:
  "foldl (\<lambda>acc c. 10 * acc + (of_char c - 48)) 0 (decimal n) = n"
proof (induction n rule: decimal.induct)
  case (1 n)
  show ?case
  proof (cases "n < 10")
    case True
    then show ?thesis by (subst decimal.simps) simp
  next
    case False
    have m: "(48 + n mod 10) mod 256 = 48 + n mod 10"
      by (rule mod_less) (simp add: less_le_trans[OF add_strict_left_mono[OF mod_less_divisor]])
    show ?thesis
      using False "1.IH"[OF False]
      by (subst decimal.simps) (simp add: m)
  qed
qed

lemma decimal_inj: "decimal n = decimal m \<Longrightarrow> n = m"
  by (metis decimal_read_back)

lemma passwd_inj:
  fixes c d :: "64 word"
  assumes "c \<noteq> d"
  shows "(if c = 0 then ''NoPassword'' else ''PasswordChecksum('' @ decimal (unat c) @ '')'')
       \<noteq> (if d = 0 then ''NoPassword'' else ''PasswordChecksum('' @ decimal (unat d) @ '')'')"
  using assms by (auto dest!: decimal_inj simp: word_unat_eq_iff[of c d])

lemma UserPermissionString_checksum:
  assumes "up_Privileges a = up_Privileges b"
    and "up_PasswordChecksum a \<noteq> up_PasswordChecksum b"
  shows "UserPermissionString a \<noteq> UserPermissionString b"
  using passwd_inj[OF assms(2)] assms(1)
  by (simp add: UserPermissionString_def Let_def)

lemma records_user_h_a_Y:
  "records (userPermissionList [user_h_a ''Y''])
     = [(''h:a'', ''UserPermission NoPassword Select_priv(Y)'')]"
  by code_simp

lemma records_user_h_a_N:
  "records (userPermissionList [user_h_a ''N''])
     = [(''h:a'', ''UserPermission NoPassword Select_priv(N)'')]"
  by code_simp

lemma records_db_h_d_u: "records (dbPermissionList [db_h_d_u]) = [(''h:d:u'', ''DbPermission'')]"
  by code_simp

lemma records_Nil: "records (userPermissionList []) = []" "records (dbPermissionList []) = []"
  by simp_all

section \<open>Properties of the merge\<close>

lemma mergeDiff_left_only:
  "K \<in> fst ` set ls \<Longrightarrow> K \<notin> fst ` set rs \<Longrightarrow> ExtraRecord LeftSide K \<in> set (mergeDiff ls rs)"
proof (induction ls rs rule: mergeDiff.induct)
  case (4 l ls r rs)
  then show ?case by (cases "fst l = K") (auto simp: image_iff)
qed auto

lemma mergeDiff_right_only:
  "K \<in> fst ` set rs \<Longrightarrow> K \<notin> fst ` set ls \<Longrightarrow> ExtraRecord RightSide K \<in> set (mergeDiff ls rs)"
proof (induction ls rs rule: mergeDiff.induct)
  case (4 l ls r rs)
  then show ?case by (cases "fst r = K") (auto simp: image_iff)
qed auto

lemma mergeDiff_keys:
  "d \<in> set (mergeDiff ls rs) \<Longrightarrow> discrepancyKey d \<in> fst ` set ls \<union> fst ` set rs"
proof (induction ls rs rule: mergeDiff.induct)
  case (4 l ls r rs)
  consider (lt) "fst l < fst r" | (gt) "\<not> fst l < fst r" "fst r < fst l"
    | (ne) "\<not> fst l < fst r" "\<not> fst r < fst l" "snd l \<noteq> snd r"
    | (eq) "\<not> fst l < fst r" "\<not> fst r < fst l" "snd l = snd r"
    by blast
  then show ?case
  proof cases
    case lt
    then show ?thesis using "4.prems" "4.IH"(1) by auto
  next
    case gt
    then show ?thesis using "4.prems" "4.IH"(2) by auto
  next
    case ne
    then show ?thesis using "4.prems" "4.IH"(3) by auto
  next
    case eq
    then show ?thesis using "4.prems" "4.IH"(4) by auto
  qed
qed auto

lemma mergeDiff_keys_above:
  assumes "\<forall>k \<in> fst ` set ls. b < k" and "\<forall>k \<in> fst ` set rs. b < k"
  shows "\<forall>d \<in> set (mergeDiff ls rs). b < discrepancyKey d"
proof
  fix d
  assume "d \<in> set (mergeDiff ls rs)"
  then have "discrepancyKey d \<in> fst ` set ls \<union> fst ` set rs"
    by (rule mergeDiff_keys)
  then show "b < discrepancyKey d"
    using assms by blast
qed

lemma mergeDiff_sorted:
  "sorted_wrt (<) (map fst ls) \<Longrightarrow> sorted_wrt (<) (map fst rs)
     \<Longrightarrow> sorted_wrt (<) (map discrepancyKey (mergeDiff ls rs))"
proof (induction ls rs rule: mergeDiff.induct)
  case 1
  then show ?case by simp
next
  case (2 l ls)
  then show ?case using mergeDiff_keys_above[of ls "fst l" "[]"] by simp
next
  case (3 r rs)
  then show ?case using mergeDiff_keys_above[of "[]" "fst r" rs] by simp
next
  case (4 l ls r rs)
  have sl: "sorted_wrt (<) (map fst ls)" and sr: "sorted_wrt (<) (map fst rs)"
    and bl: "\<forall>k \<in> fst ` set ls. fst l < k" and br: "\<forall>k \<in> fst ` set rs. fst r < k"
    using "4.prems" by auto
  consider (lt) "fst l < fst r" | (gt) "\<not> fst l < fst r" "fst r < fst l"
    | (eq) "fst l = fst r"
    by (metis linorder_less_linear)
  then show ?case
  proof cases
    case lt
    have "\<forall>d \<in> set (mergeDiff ls (r # rs)). fst l < discrepancyKey d"
      using bl br lt by (intro mergeDiff_keys_above) (auto intro: less_trans)
    then show ?thesis using lt "4.IH"(1)[OF lt sl "4.prems"(2)] by auto
  next
    case gt
    have "\<forall>d \<in> set (mergeDiff (l # ls) rs). fst r < discrepancyKey d"
      using bl br gt by (intro mergeDiff_keys_above) (auto intro: less_trans)
    then show ?thesis using gt "4.IH"(2)[OF gt "4.prems"(1) sr] by auto
  next
    case eq
    have b: "\<forall>d \<in> set (mergeDiff ls rs). fst l < discrepancyKey d"
      using bl br eq by (intro mergeDiff_keys_above) auto
    have n: "\<not> fst l < fst r" "\<not> fst r < fst l" using eq by auto
    show ?thesis
    proof (cases "snd l = snd r")
      case True
      then show ?thesis using n "4.IH"(4)[OF n _ sl sr] by simp
    next
      case False
      then show ?thesis using n b "4.IH"(3)[OF n False sl sr] by auto
    qed
  qed
qed

section \<open>Properties of the differ\<close>

text \<open>
  C4: diffing a snapshot against an identical copy of itself records nothing, for the
  user records, for the db records and for both together, whatever the two lists
  hold, and \<open>DiffPermissionsToArray\<close> then returns the empty (nil) result.
\<close>

theorem diff_identical_snapshots:
  "diffPermissions ''user'' leftName (userPermissionList (UserPermissions s))
       rightName (userPermissionList (UserPermissions s)) er = Some er
   \<and> diffPermissions ''db'' leftName (dbPermissionList (DbPermissions s))
       rightName (dbPermissionList (DbPermissions s)) er = Some er
   \<and> DiffPermissions leftName s rightName s er = Some er
   \<and> DiffPermissionsToArray leftName s rightName s = Some []"
  by (simp add: diffPermissions_mergeDiff DiffPermissions_mergeDiff
        DiffPermissionsToArray_mergeDiff mergeDiff_same)

text \<open>
  C10: with no assumption on the order or the uniqueness of the keys, one run of
  \<open>diffPermissions\<close> returns, and it appends to the recorder at most
  \<open>Len left + Len right\<close> messages. (That every iteration advances an index is the
  termination measure of the three loops.)
\<close>

theorem diffPermissions_message_bound:
  "\<exists>er'. diffPermissions name leftName left rightName right er = Some (er @ er')
     \<and> length er' \<le> Len left + Len right"
  by (simp add: diffPermissions_mergeDiff Len_records length_mergeDiff)

text \<open>
  C5: two sequences of one record each, the two records having the same primary key and
  different rendered values: the run records exactly one message, the value-mismatch
  message for that key, and the merge yields that one \<open>ValueMismatch\<close> report and no
  \<open>ExtraRecord\<close> report.
\<close>

theorem single_record_value_mismatch:
  assumes "Len left = 1" and "Len right = 1"
    and "Get left 0 = Some (k, lval)" and "Get right 0 = Some (k, rval)"
    and "lval \<noteq> rval"
  shows "diffPermissions name leftName left rightName right er =
           Some (er @ [''permissions differ on '' @ name @ '' '' @ k @ '':'' @ [CHR 0x0A]
                        @ leftName @ '': '' @ lval @ [CHR 0x0A]
                        @ '' differs from:'' @ [CHR 0x0A]
                        @ rightName @ '': '' @ rval])
         \<and> mergeDiff (records left) (records right) = [ValueMismatch k lval rval]"
proof -
  have l: "records left = [(k, lval)]"
    using assms(1,3) by (cases "records left") (auto simp: Len_records Get_records)
  have r: "records right = [(k, rval)]"
    using assms(2,4) by (cases "records right") (auto simp: Len_records Get_records)
  show ?thesis
    using assms(5) by (simp add: diffPermissions_mergeDiff l r differError_def)
qed

theorem single_record_value_mismatch_witness:
  "Len (userPermissionList [user_h_a ''Y'']) = 1
   \<and> Len (userPermissionList [user_h_a ''N'']) = 1
   \<and> Get (userPermissionList [user_h_a ''Y'']) 0
        = Some (''h:a'', ''UserPermission NoPassword Select_priv(Y)'')
   \<and> Get (userPermissionList [user_h_a ''N'']) 0
        = Some (''h:a'', ''UserPermission NoPassword Select_priv(N)'')
   \<and> ''UserPermission NoPassword Select_priv(Y)'' \<noteq> ''UserPermission NoPassword Select_priv(N)''
   \<and> mergeDiff (records (userPermissionList [user_h_a ''Y'']))
         (records (userPermissionList [user_h_a ''N'']))
        = [ValueMismatch ''h:a'' ''UserPermission NoPassword Select_priv(Y)''
             ''UserPermission NoPassword Select_priv(N)'']"
proof -
  have h1: "Len (userPermissionList [user_h_a ''Y'']) = 1" by simp
  have h2: "Len (userPermissionList [user_h_a ''N'']) = 1" by simp
  have h3: "Get (userPermissionList [user_h_a ''Y'']) 0
        = Some (''h:a'', ''UserPermission NoPassword Select_priv(Y)'')" by code_simp
  have h4: "Get (userPermissionList [user_h_a ''N'']) 0
        = Some (''h:a'', ''UserPermission NoPassword Select_priv(N)'')" by code_simp
  have h5: "''UserPermission NoPassword Select_priv(Y)'' \<noteq> ''UserPermission NoPassword Select_priv(N)''"
    by simp
  show ?thesis
    using single_record_value_mismatch[OF h1 h2 h3 h4 h5] h1 h2 h3 h4 h5 by blast
qed

text \<open>
  C6: a user record with key \<open>K\<close> that occurs in one sequence only is reported as an
  extra of the side it is on: with that sequence on the left the message names
  \<open>leftName\<close>, with the two sequences swapped it names \<open>rightName\<close>; the key and the
  word "user" stay. No order of the sequences is assumed.
\<close>

theorem extra_user_side_flips:
  assumes "K \<in> UserPermissionPrimaryKey ` set upl"
    and "K \<notin> UserPermissionPrimaryKey ` set upl'"
  shows "\<exists>er1 er2.
           diffPermissions ''user'' leftName (userPermissionList upl)
               rightName (userPermissionList upl') er = Some (er @ er1)
         \<and> leftName @ '' has an extra user '' @ K \<in> set er1
         \<and> diffPermissions ''user'' leftName (userPermissionList upl')
               rightName (userPermissionList upl) er = Some (er @ er2)
         \<and> rightName @ '' has an extra user '' @ K \<in> set er2"
proof -
  let ?A = "records (userPermissionList upl)" and ?B = "records (userPermissionList upl')"
  have a: "K \<in> fst ` set ?A" using assms(1) by (force simp: image_iff)
  have b: "K \<notin> fst ` set ?B" using assms(2) by (force simp: image_iff)
  have "message ''user'' leftName rightName (ExtraRecord LeftSide K)
          \<in> message ''user'' leftName rightName ` set (mergeDiff ?A ?B)"
    using mergeDiff_left_only[OF a b] by (rule imageI)
  moreover have "message ''user'' leftName rightName (ExtraRecord RightSide K)
          \<in> message ''user'' leftName rightName ` set (mergeDiff ?B ?A)"
    using mergeDiff_right_only[OF a b] by (rule imageI)
  ultimately show ?thesis
    by (simp add: diffPermissions_mergeDiff extraError_def)
qed

theorem extra_user_side_flips_witness:
  "''h:a'' \<in> UserPermissionPrimaryKey ` set [user_h_a ''Y'']
   \<and> ''h:a'' \<notin> UserPermissionPrimaryKey ` set [user_of ''h'' ''b'' 0 ''Y'']
   \<and> (\<exists>er1 er2.
           diffPermissions ''user'' ''left'' (userPermissionList [user_h_a ''Y''])
               ''right'' (userPermissionList [user_of ''h'' ''b'' 0 ''Y'']) [] = Some ([] @ er1)
         \<and> ''left'' @ '' has an extra user '' @ ''h:a'' \<in> set er1
         \<and> diffPermissions ''user'' ''left'' (userPermissionList [user_of ''h'' ''b'' 0 ''Y''])
               ''right'' (userPermissionList [user_h_a ''Y'']) [] = Some ([] @ er2)
         \<and> ''right'' @ '' has an extra user '' @ ''h:a'' \<in> set er2)"
proof -
  have h1: "''h:a'' \<in> UserPermissionPrimaryKey ` set [user_h_a ''Y'']"
    by (simp add: UserPermissionPrimaryKey_def)
  have h2: "''h:a'' \<notin> UserPermissionPrimaryKey ` set [user_of ''h'' ''b'' 0 ''Y'']"
    by (simp add: UserPermissionPrimaryKey_def)
  show ?thesis
    using extra_user_side_flips[OF h1 h2, of "''left''" "''right''" "[]"] h1 h2 by blast
qed

text \<open>
  C7: when both inputs are strictly ascending by key, the messages recorded are those of
  discrepancy reports whose keys are strictly increasing; and \<open>DiffPermissions\<close>
  records the user messages first and the db messages after them, each kind being
  ordered on its own.
\<close>

theorem discrepancies_in_key_order:
  "(sorted_wrt (<) (map fst (records left)) \<and> sorted_wrt (<) (map fst (records right))
      \<longrightarrow> diffPermissions name leftName left rightName right er =
            Some (er @ map (message name leftName rightName)
                         (mergeDiff (records left) (records right)))
          \<and> sorted_wrt (<) (map discrepancyKey (mergeDiff (records left) (records right))))
   \<and> DiffPermissions leftName l rightName r er =
       Some (er
         @ map (message ''user'' leftName rightName)
             (mergeDiff (records (userPermissionList (UserPermissions l)))
                        (records (userPermissionList (UserPermissions r))))
         @ map (message ''db'' leftName rightName)
             (mergeDiff (records (dbPermissionList (DbPermissions l)))
                        (records (dbPermissionList (DbPermissions r)))))"
  by (simp add: diffPermissions_mergeDiff DiffPermissions_mergeDiff mergeDiff_sorted)

theorem discrepancies_in_key_order_witness:
  "sorted_wrt (<) (map fst (records (userPermissionList
       [user_of ''a'' ''x'' 0 ''Y'', user_of ''c'' ''z'' 0 ''Y''])))
   \<and> sorted_wrt (<) (map fst (records (userPermissionList
       [user_of ''b'' ''y'' 0 ''Y'', user_of ''c'' ''z'' 0 ''N''])))
   \<and> sorted_wrt (<) (map discrepancyKey (mergeDiff
        (records (userPermissionList [user_of ''a'' ''x'' 0 ''Y'', user_of ''c'' ''z'' 0 ''Y'']))
        (records (userPermissionList [user_of ''b'' ''y'' 0 ''Y'', user_of ''c'' ''z'' 0 ''N'']))))
   \<and> map discrepancyKey (mergeDiff
        (records (userPermissionList [user_of ''a'' ''x'' 0 ''Y'', user_of ''c'' ''z'' 0 ''Y'']))
        (records (userPermissionList [user_of ''b'' ''y'' 0 ''Y'', user_of ''c'' ''z'' 0 ''N''])))
      = [''a:x'', ''b:y'', ''c:z'']"
proof -
  have h1: "sorted_wrt (<) (map fst (records (userPermissionList
       [user_of ''a'' ''x'' 0 ''Y'', user_of ''c'' ''z'' 0 ''Y''])))"
    by code_simp
  have h2: "sorted_wrt (<) (map fst (records (userPermissionList
       [user_of ''b'' ''y'' 0 ''Y'', user_of ''c'' ''z'' 0 ''N''])))"
    by code_simp
  have v: "map discrepancyKey (mergeDiff
        (records (userPermissionList [user_of ''a'' ''x'' 0 ''Y'', user_of ''c'' ''z'' 0 ''Y'']))
        (records (userPermissionList [user_of ''b'' ''y'' 0 ''Y'', user_of ''c'' ''z'' 0 ''N''])))
      = [''a:x'', ''b:y'', ''c:z'']"
    by code_simp
  show ?thesis
    using discrepancies_in_key_order[of
        "userPermissionList [user_of ''a'' ''x'' 0 ''Y'', user_of ''c'' ''z'' 0 ''Y'']"
        "userPermissionList [user_of ''b'' ''y'' 0 ''Y'', user_of ''c'' ''z'' 0 ''N'']"]
      h1 h2 v
    by blast
qed

text \<open>
  C8: whatever the order \<open>si\<close> in which the keys of the mapping are visited,
  \<open>printPrivileges\<close> yields the concatenation, over the keys in ascending order, of
  \<open>" " + key + "(" + value + ")"\<close>; the empty mapping renders as the empty string.
\<close>

theorem printPrivileges_sorted_entries:
  assumes "distinct si" and "set si = Mapping.keys priv"
  shows "printPrivileges_range si priv =
           concat (map (\<lambda>k. '' '' @ k @ ''('' @ Mapping.lookup_default [] priv k @ '')'')
                     (sorted_list_of_set (Mapping.keys priv)))
         \<and> printPrivileges priv = printPrivileges_range si priv
         \<and> printPrivileges Mapping.empty = []"
proof -
  note printPrivileges_range_concat[OF assms]
  moreover have "printPrivileges priv = printPrivileges_range si priv"
    by (rule printPrivileges_range_any_order[OF assms, symmetric])
  ultimately show ?thesis
    using printPrivileges_empty by blast
qed

theorem printPrivileges_sorted_entries_witness:
  "distinct [''b'', ''a'']
   \<and> set [''b'', ''a''] = Mapping.keys (Mapping.update ''a'' ''1'' (privs1 ''b'' ''2''))
   \<and> printPrivileges_range [''b'', ''a''] (Mapping.update ''a'' ''1'' (privs1 ''b'' ''2''))
       = '' a(1) b(2)''
   \<and> printPrivileges (Mapping.update ''a'' ''1'' (privs1 ''b'' ''2'')) = '' a(1) b(2)''"
proof -
  have h1: "distinct [''b'', ''a'']" by simp
  have h2: "set [''b'', ''a''] = Mapping.keys (Mapping.update ''a'' ''1'' (privs1 ''b'' ''2''))"
    by auto
  have v: "printPrivileges (Mapping.update ''a'' ''1'' (privs1 ''b'' ''2'')) = '' a(1) b(2)''"
    by code_simp
  show ?thesis
    using printPrivileges_sorted_entries[OF h1 h2] h1 h2 v by simp
qed

text \<open>
  C1 as stated fails: the rendered value of a user record starts with the words
  \<open>UserPermission\<close> and a space, so the message of the example is not the one given.
\<close>

theorem user_mismatch_example_counterexample:
  "DiffPermissionsToArray ''left'' \<lparr>UserPermissions = [user_h_a ''Y''], DbPermissions = []\<rparr>
       ''right'' \<lparr>UserPermissions = [user_h_a ''N''], DbPermissions = []\<rparr>
     \<noteq> Some [''permissions differ on user h:a:'' @ [CHR 0x0A]
              @ ''left: NoPassword Select_priv(Y)'' @ [CHR 0x0A]
              @ '' differs from:'' @ [CHR 0x0A]
              @ ''right: NoPassword Select_priv(N)'']"
  unfolding DiffPermissionsToArray_mergeDiff
  by (simp add: records_Nil records_user_h_a_Y records_user_h_a_N differError_def del: records.simps)

text \<open>
  C1, amended: for the two user records of the example, the user pass records exactly
  one message, in which each rendered value is \<open>UserPermission NoPassword\<close> followed
  by the privilege rendering; and with the same db records on both sides it is the only
  message that \<open>DiffPermissionsToArray\<close> returns.
\<close>

theorem user_mismatch_example:
  "diffPermissions ''user'' ''left'' (userPermissionList [user_h_a ''Y''])
       ''right'' (userPermissionList [user_h_a ''N'']) er
     = Some (er @ [''permissions differ on user h:a:'' @ [CHR 0x0A]
              @ ''left: UserPermission NoPassword Select_priv(Y)'' @ [CHR 0x0A]
              @ '' differs from:'' @ [CHR 0x0A]
              @ ''right: UserPermission NoPassword Select_priv(N)''])
   \<and> DiffPermissionsToArray ''left'' \<lparr>UserPermissions = [user_h_a ''Y''], DbPermissions = ds\<rparr>
       ''right'' \<lparr>UserPermissions = [user_h_a ''N''], DbPermissions = ds\<rparr>
     = Some [''permissions differ on user h:a:'' @ [CHR 0x0A]
              @ ''left: UserPermission NoPassword Select_priv(Y)'' @ [CHR 0x0A]
              @ '' differs from:'' @ [CHR 0x0A]
              @ ''right: UserPermission NoPassword Select_priv(N)'']"
  unfolding DiffPermissionsToArray_mergeDiff diffPermissions_mergeDiff
  by (simp add: records_Nil records_user_h_a_Y records_user_h_a_N differError_def mergeDiff_same
        del: records.simps)

text \<open>
  C2 as stated fails: the record is on the right side, and the message names the side
  that holds the record.
\<close>

theorem extra_db_example_counterexample:
  "DiffPermissionsToArray ''left'' \<lparr>UserPermissions = [], DbPermissions = []\<rparr>
       ''right'' \<lparr>UserPermissions = [], DbPermissions = [db_h_d_u]\<rparr>
     \<noteq> Some [''left has an extra db h:d:u'']"
  unfolding DiffPermissionsToArray_mergeDiff
  by (simp add: records_Nil records_db_h_d_u extraError_def del: records.simps)

text \<open>
  C2, amended: with no db record on the left and the one db record of the example on the
  right, the db pass records exactly one message, \<open>right has an extra db h:d:u\<close>; and
  with the same user records on both sides it is the only message that
  \<open>DiffPermissionsToArray\<close> returns.
\<close>

theorem extra_db_example:
  "diffPermissions ''db'' ''left'' (dbPermissionList [])
       ''right'' (dbPermissionList [db_h_d_u]) er
     = Some (er @ [''right has an extra db h:d:u''])
   \<and> DiffPermissionsToArray ''left'' \<lparr>UserPermissions = us, DbPermissions = []\<rparr>
       ''right'' \<lparr>UserPermissions = us, DbPermissions = [db_h_d_u]\<rparr>
     = Some [''right has an extra db h:d:u'']"
  unfolding DiffPermissionsToArray_mergeDiff diffPermissions_mergeDiff
  by (simp add: records_Nil records_db_h_d_u extraError_def mergeDiff_same del: records.simps)

text \<open>
  C3 as stated fails: the rendered value of a db record with no privileges is
  \<open>DbPermission\<close>, not the empty string.
\<close>

theorem db_rendered_value_counterexample:
  "Get (dbPermissionList [db_h_d_u]) 0 \<noteq> Some (''h:d:u'', printPrivileges (dp_Privileges db_h_d_u))"
  by code_simp

text \<open>
  C3, amended: the value that the differ reads for a db record is the word
  \<open>DbPermission\<close> followed by the sorted rendering of its privileges, with no password
  component.
\<close>

theorem db_rendered_value:
  "i < length upl \<Longrightarrow>
     Get (dbPermissionList upl) i
       = Some (DbPermissionPrimaryKey (upl ! i),
               ''DbPermission'' @ printPrivileges (dp_Privileges (upl ! i)))"
  by (simp add: DbPermissionString_def)

theorem db_rendered_value_witness:
  "(0::nat) < length [db_h_d_u]
   \<and> Get (dbPermissionList [db_h_d_u]) 0
       = Some (DbPermissionPrimaryKey ([db_h_d_u] ! 0),
               ''DbPermission'' @ printPrivileges (dp_Privileges ([db_h_d_u] ! 0)))"
proof -
  have h: "(0::nat) < length [db_h_d_u]" by simp
  show ?thesis using db_rendered_value[OF h] h by blast
qed

text \<open>
  C9: two user records with the same primary key and the same privileges. If their
  password checksums differ, their rendered values differ and the differ records the
  value-mismatch message for that key; if both checksums are 0, both render the password
  as \<open>NoPassword\<close> and nothing is recorded.
\<close>

theorem password_checksum_equivalence:
  assumes "UserPermissionPrimaryKey a = UserPermissionPrimaryKey b"
    and "up_Privileges a = up_Privileges b"
  shows "(up_PasswordChecksum a \<noteq> up_PasswordChecksum b \<longrightarrow>
            UserPermissionString a \<noteq> UserPermissionString b
          \<and> diffPermissions ''user'' leftName (userPermissionList [a])
                rightName (userPermissionList [b]) er =
              Some (er @ [''permissions differ on user '' @ UserPermissionPrimaryKey a @ '':''
                            @ [CHR 0x0A] @ leftName @ '': '' @ UserPermissionString a
                            @ [CHR 0x0A] @ '' differs from:''
                            @ [CHR 0x0A] @ rightName @ '': '' @ UserPermissionString b]))
       \<and> (up_PasswordChecksum a = 0 \<and> up_PasswordChecksum b = 0 \<longrightarrow>
            UserPermissionString a
              = ''UserPermission '' @ ''NoPassword'' @ printPrivileges (up_Privileges a)
          \<and> UserPermissionString b
              = ''UserPermission '' @ ''NoPassword'' @ printPrivileges (up_Privileges b)
          \<and> diffPermissions ''user'' leftName (userPermissionList [a])
                rightName (userPermissionList [b]) er = Some er)"
proof (intro conjI impI)
  assume d: "up_PasswordChecksum a \<noteq> up_PasswordChecksum b"
  show n: "UserPermissionString a \<noteq> UserPermissionString b"
    by (rule UserPermissionString_checksum[OF assms(2) d])
  show "diffPermissions ''user'' leftName (userPermissionList [a])
                rightName (userPermissionList [b]) er =
              Some (er @ [''permissions differ on user '' @ UserPermissionPrimaryKey a @ '':''
                            @ [CHR 0x0A] @ leftName @ '': '' @ UserPermissionString a
                            @ [CHR 0x0A] @ '' differs from:''
                            @ [CHR 0x0A] @ rightName @ '': '' @ UserPermissionString b])"
    using n assms(1) by (simp add: diffPermissions_mergeDiff differError_def)
next
  assume z: "up_PasswordChecksum a = 0 \<and> up_PasswordChecksum b = 0"
  show "UserPermissionString a
          = ''UserPermission '' @ ''NoPassword'' @ printPrivileges (up_Privileges a)"
    using z by (simp add: UserPermissionString_def)
  show "UserPermissionString b
          = ''UserPermission '' @ ''NoPassword'' @ printPrivileges (up_Privileges b)"
    using z by (simp add: UserPermissionString_def)
  show "diffPermissions ''user'' leftName (userPermissionList [a])
                rightName (userPermissionList [b]) er = Some er"
    using z assms by (simp add: diffPermissions_mergeDiff UserPermissionString_def)
qed

theorem password_checksum_equivalence_witness:
  "UserPermissionPrimaryKey (user_of ''h'' ''a'' 5 ''Y'') = UserPermissionPrimaryKey (user_of ''h'' ''a'' 6 ''Y'')
   \<and> up_Privileges (user_of ''h'' ''a'' 5 ''Y'') = up_Privileges (user_of ''h'' ''a'' 6 ''Y'')
   \<and> up_PasswordChecksum (user_of ''h'' ''a'' 5 ''Y'') \<noteq> up_PasswordChecksum (user_of ''h'' ''a'' 6 ''Y'')
   \<and> UserPermissionString (user_of ''h'' ''a'' 5 ''Y'') \<noteq> UserPermissionString (user_of ''h'' ''a'' 6 ''Y'')
   \<and> UserPermissionPrimaryKey (user_of ''h:x'' ''a'' 0 ''Y'') = UserPermissionPrimaryKey (user_of ''h'' ''x:a'' 0 ''Y'')
   \<and> up_Privileges (user_of ''h:x'' ''a'' 0 ''Y'') = up_Privileges (user_of ''h'' ''x:a'' 0 ''Y'')
   \<and> up_PasswordChecksum (user_of ''h:x'' ''a'' 0 ''Y'') = 0
   \<and> up_PasswordChecksum (user_of ''h'' ''x:a'' 0 ''Y'') = 0
   \<and> diffPermissions ''user'' ''left'' (userPermissionList [user_of ''h:x'' ''a'' 0 ''Y''])
         ''right'' (userPermissionList [user_of ''h'' ''x:a'' 0 ''Y'']) [] = Some []"
proof -
  have k1: "UserPermissionPrimaryKey (user_of ''h'' ''a'' 5 ''Y'') = UserPermissionPrimaryKey (user_of ''h'' ''a'' 6 ''Y'')"
    by (simp add: UserPermissionPrimaryKey_def)
  have p1: "up_Privileges (user_of ''h'' ''a'' 5 ''Y'') = up_Privileges (user_of ''h'' ''a'' 6 ''Y'')"
    by simp
  have c1: "up_PasswordChecksum (user_of ''h'' ''a'' 5 ''Y'') \<noteq> up_PasswordChecksum (user_of ''h'' ''a'' 6 ''Y'')"
    by simp
  have k2: "UserPermissionPrimaryKey (user_of ''h:x'' ''a'' 0 ''Y'') = UserPermissionPrimaryKey (user_of ''h'' ''x:a'' 0 ''Y'')"
    by (simp add: UserPermissionPrimaryKey_def)
  have p2: "up_Privileges (user_of ''h:x'' ''a'' 0 ''Y'') = up_Privileges (user_of ''h'' ''x:a'' 0 ''Y'')"
    by simp
  have c2: "up_PasswordChecksum (user_of ''h:x'' ''a'' 0 ''Y'') = 0
            \<and> up_PasswordChecksum (user_of ''h'' ''x:a'' 0 ''Y'') = 0"
    by simp
  show ?thesis
    using password_checksum_equivalence[OF k1 p1, of "''left''" "''right''" "[]"]
      password_checksum_equivalence[OF k2 p2, of "''left''" "''right''" "[]"]
      k1 p1 c1 k2 p2 c2
    by blast
qed

end
